theory Spec2Isabelle
  imports Main "HOL-Library.Sublist" "HOL-Library.Word"
begin

section \<open>Python values, errors and built-ins used by seller.py\<close>

text \<open>
  The values that reach the reconciliation code are the cells of the spreadsheet rows
  and the results of \<^verbatim>\<open>dict.get\<close>: \<^verbatim>\<open>None\<close> for a missing key, an integer, a
  float, or a string. A string is the UTF-8 encoding of its code points; the Cyrillic
  keys and the currency suffix of the price example are written byte by byte.

  A float of the model is \<open>m / 2 ^ k\<close> for a signed 32-bit \<open>m\<close> and \<open>k\<close> from 0 to 3:
  all of these are doubles, with at most thirteen significant decimal digits, so
  \<^verbatim>\<open>str\<close> prints their exact decimal expansion in fixed notation. The other doubles
  (more fraction bits, larger magnitudes, negative zero, infinities, NaN) are not part of
  this model.
\<close>

datatype pyval = PyNone | PyInt int | PyFloat "32 word" "2 word" | PyStr string

datatype py_error = TypeError | ValueError | AttributeError | IndexError | HTTPError

subsection \<open>\<^verbatim>\<open>str(x)\<close>\<close>

definition digit_char :: "nat \<Rightarrow> char" where
  "digit_char d = ''0123456789'' ! d"

fun string_of_nat :: "nat \<Rightarrow> string" where
  "string_of_nat n =
     (if n < 10 then [digit_char n]
      else string_of_nat (n div 10) @ [digit_char (n mod 10)])"

declare string_of_nat.simps [simp del]

definition string_of_int :: "int \<Rightarrow> string" where
  "string_of_int i = (if i < 0 then CHR ''-'' # string_of_nat (nat (- i)) else string_of_nat (nat i))"

text \<open>
  The digits after the point of a float: \<open>f\<close> is the fraction in thousandths (a multiple
  of 125); trailing zeros are dropped, one digit is kept.
\<close>

definition fraction_digits :: "nat \<Rightarrow> string" where
  "fraction_digits f =
     (case rev (dropWhile (\<lambda>c. c = CHR ''0'')
                 (rev [digit_char (f div 100), digit_char (f div 10 mod 10), digit_char (f mod 10)])) of
        [] \<Rightarrow> ''0''
      | c # cs \<Rightarrow> c # cs)"

definition string_of_float :: "32 word \<Rightarrow> 2 word \<Rightarrow> string" where
  "string_of_float m k =
     (let a = nat \<bar>sint m\<bar>; d = 2 ^ unat k in
      (if sint m < 0 then ''-'' else []) @ string_of_nat (a div d) @ ''.'' @
      fraction_digits ((a mod d) * 1000 div d))"

fun py_str :: "pyval \<Rightarrow> string" where
  "py_str PyNone = ''None''"
| "py_str (PyInt i) = string_of_int i"
| "py_str (PyFloat m k) = string_of_float m k"
| "py_str (PyStr s) = s"

subsection \<open>\<^verbatim>\<open>int(x)\<close>\<close>

text \<open>
  \<^verbatim>\<open>int\<close> of a string, base 10, as CPython does it. The string is first rewritten
  to an ASCII buffer, code point by code point: a code point below 127 stays, a Unicode
  space becomes a blank, a Unicode decimal digit becomes its ASCII digit, and anything
  else becomes a question mark that ends the buffer. The buffer is then read:
  surrounding ASCII whitespace is skipped, one sign is allowed, then decimal digits,
  where a single underscore may stand between two digits, and not more digits than the
  interpreter's limit. Anything else raises \<^verbatim>\<open>ValueError\<close>.
  \<^verbatim>\<open>int(None)\<close> raises \<^verbatim>\<open>TypeError\<close>; \<^verbatim>\<open>int\<close> of a float drops the
  fraction, towards zero.

  The tables are those of CPython 3.11 (Unicode 14.0): the spaces above ASCII, and the
  code point of the digit zero of every block of decimal digits above ASCII. The digit
  limit is the interpreter's default, 4300.
\<close>

definition is_digit :: "char \<Rightarrow> bool" where
  "is_digit c = (c \<in> set ''0123456789'')"

definition digit_val :: "char \<Rightarrow> nat" where
  "digit_val c = of_char c - 48"

definition is_space :: "char \<Rightarrow> bool" where
  "is_space c = (c \<in> set [CHR 0x20, CHR 0x09, CHR 0x0A, CHR 0x0B, CHR 0x0C, CHR 0x0D])"

definition unicode_spaces :: "nat list" where
  "unicode_spaces =
     [0x85, 0xA0, 0x1680, 0x2000, 0x2001, 0x2002, 0x2003, 0x2004, 0x2005, 0x2006,
      0x2007, 0x2008, 0x2009, 0x200A, 0x2028, 0x2029, 0x202F, 0x205F, 0x3000]"

definition unicode_zeros :: "nat list" where
  "unicode_zeros =
     [0x660, 0x6F0, 0x7C0, 0x966, 0x9E6, 0xA66, 0xAE6, 0xB66, 0xBE6, 0xC66, 0xCE6,
      0xD66, 0xDE6, 0xE50, 0xED0, 0xF20, 0x1040, 0x1090, 0x17E0, 0x1810, 0x1946,
      0x19D0, 0x1A80, 0x1A90, 0x1B50, 0x1BB0, 0x1C40, 0x1C50, 0xA620, 0xA8D0, 0xA900,
      0xA9D0, 0xA9F0, 0xAA50, 0xABF0, 0xFF10, 0x104A0, 0x10D30, 0x11066, 0x110F0,
      0x11136, 0x111D0, 0x112F0, 0x11450, 0x114D0, 0x11650, 0x116C0, 0x11730, 0x118E0,
      0x11950, 0x11C50, 0x11D50, 0x11DA0, 0x16A60, 0x16AC0, 0x16B50, 0x1D7CE, 0x1D7D8,
      0x1D7E2, 0x1D7EC, 0x1D7F6, 0x1E140, 0x1E2F0, 0x1E950, 0x1FBF0]"

definition unicode_decimal :: "nat \<Rightarrow> nat option" where
  "unicode_decimal cp =
     map_option (\<lambda>z. cp - z) (find (\<lambda>z. z \<le> cp \<and> cp < z + 10) unicode_zeros)"

text \<open>
  Decoding UTF-8. A code point below 128 is kept as its byte (\<open>Inl\<close>), a larger one
  is its number (\<open>Inr\<close>). \<open>utf8_run k acc lo bs\<close> still expects \<open>k\<close> continuation
  bytes of a code point whose leading bits are \<open>acc\<close> and which must not be below
  \<open>lo\<close>. Bytes that are not the encoding of a string give \<open>None\<close>.
\<close>

fun utf8_run :: "nat \<Rightarrow> nat \<Rightarrow> nat \<Rightarrow> string \<Rightarrow> (char + nat) list option" where
  "utf8_run k acc lo [] = (if k = 0 then Some [] else None)"
| "utf8_run k acc lo (b # bs) =
     (let n = of_char b in
      if k = 0 then
        (if n < 0x80 then map_option (Cons (Inl b)) (utf8_run 0 0 0 bs)
         else if 0xC2 \<le> n \<and> n < 0xE0 then utf8_run 1 (n - 0xC0) 0x80 bs
         else if 0xE0 \<le> n \<and> n < 0xF0 then utf8_run 2 (n - 0xE0) 0x800 bs
         else if 0xF0 \<le> n \<and> n < 0xF5 then utf8_run 3 (n - 0xF0) 0x10000 bs
         else None)
      else if 0x80 \<le> n \<and> n < 0xC0 then
        (let cp = acc * 64 + (n - 0x80) in
         if k = 1 then
           (if lo \<le> cp \<and> cp \<le> 0x10FFFF \<and> \<not> (0xD800 \<le> cp \<and> cp < 0xE000)
            then map_option (Cons (Inr cp)) (utf8_run 0 0 0 bs)
            else None)
         else utf8_run (k - 1) cp lo bs)
      else None)"

definition utf8_decode :: "string \<Rightarrow> (char + nat) list option" where
  "utf8_decode s = utf8_run 0 0 0 s"

text \<open>The ASCII buffer that \<^verbatim>\<open>int\<close> reads.\<close>

fun to_ascii :: "(char + nat) list \<Rightarrow> string" where
  "to_ascii [] = []"
| "to_ascii (Inl c # cps) =
     (if of_char c < (127 :: nat) then c # to_ascii cps else ''?'')"
| "to_ascii (Inr cp # cps) =
     (if cp \<in> set unicode_spaces then CHR 0x20 # to_ascii cps
      else (case unicode_decimal cp of
              None \<Rightarrow> ''?''
            | Some d \<Rightarrow> digit_char d # to_ascii cps))"

definition strip :: "string \<Rightarrow> string" where
  "strip s = rev (dropWhile is_space (rev (dropWhile is_space s)))"

text \<open>
  \<open>parse_digits acc prev cs\<close> reads the rest of a digit sequence; \<open>prev\<close> tells
  whether the character just read was a digit (an underscore needs a digit on both
  sides, and the sequence must end on a digit).
\<close>

fun parse_digits :: "nat \<Rightarrow> bool \<Rightarrow> string \<Rightarrow> nat option" where
  "parse_digits acc prev [] = (if prev then Some acc else None)"
| "parse_digits acc prev (c # cs) =
     (if is_digit c then parse_digits (acc * 10 + digit_val c) True cs
      else if c = CHR ''_'' \<and> prev then parse_digits acc False cs
      else None)"

definition int_max_str_digits :: nat where
  "int_max_str_digits = 4300"

definition limited_digits :: "string \<Rightarrow> nat option" where
  "limited_digits cs =
     (if int_max_str_digits < length (filter is_digit cs) then None
      else parse_digits 0 False cs)"

definition parse_ascii :: "string \<Rightarrow> int option" where
  "parse_ascii t =
     (case strip t of
        [] \<Rightarrow> None
      | c # cs \<Rightarrow>
          if c = CHR ''-'' then map_option (\<lambda>n. - int n) (limited_digits cs)
          else if c = CHR ''+'' then map_option int (limited_digits cs)
          else map_option int (limited_digits (c # cs)))"

definition parse_int :: "string \<Rightarrow> int option" where
  "parse_int s =
     (case utf8_decode s of
        None \<Rightarrow> None
      | Some cps \<Rightarrow> parse_ascii (to_ascii cps))"

definition int_of_float :: "32 word \<Rightarrow> 2 word \<Rightarrow> int" where
  "int_of_float m k =
     (if 0 \<le> sint m then sint m div 2 ^ unat k else - ((- sint m) div 2 ^ unat k))"

fun py_int :: "pyval \<Rightarrow> py_error + int" where
  "py_int PyNone = Inl TypeError"
| "py_int (PyInt i) = Inr i"
| "py_int (PyFloat m k) = Inr (int_of_float m k)"
| "py_int (PyStr s) = (case parse_int s of None \<Rightarrow> Inl ValueError | Some i \<Rightarrow> Inr i)"

subsection \<open>\<^verbatim>\<open>range\<close> and slicing\<close>

text \<open>
  \<^verbatim>\<open>range(start, stop, step)\<close> raises \<^verbatim>\<open>ValueError\<close> for a zero step; otherwise
  it holds \<open>start + k * step\<close> for \<open>k\<close> below its length.
\<close>

definition range_len :: "int \<Rightarrow> int \<Rightarrow> int \<Rightarrow> nat" where
  "range_len start stop step =
     (if 0 < step then (if start < stop then nat ((stop - start - 1) div step + 1) else 0)
      else (if stop < start then nat ((start - stop - 1) div (- step) + 1) else 0))"

definition py_range :: "int \<Rightarrow> int \<Rightarrow> int \<Rightarrow> py_error + int list" where
  "py_range start stop step =
     (if step = 0 then Inl ValueError
      else Inr (map (\<lambda>k. start + int k * step) [0..<range_len start stop step]))"

text \<open>\<^verbatim>\<open>lst[a:b]\<close>: negative bounds count from the end, and bounds are clipped.\<close>

definition slice_index :: "nat \<Rightarrow> int \<Rightarrow> nat" where
  "slice_index len k = (if k < 0 then nat (max 0 (k + int len)) else min (nat k) len)"

definition py_slice :: "'a list \<Rightarrow> int \<Rightarrow> int \<Rightarrow> 'a list" where
  "py_slice lst a b =
     (let lo = slice_index (length lst) a; hi = slice_index (length lst) b
      in take (hi - lo) (drop lo lst))"

subsection \<open>\<^verbatim>\<open>str.split\<close> with a one-character separator, \<^verbatim>\<open>re.sub\<close> on a character class\<close>

fun split_acc :: "char \<Rightarrow> string \<Rightarrow> string \<Rightarrow> string list" where
  "split_acc sep cur [] = [cur]"
| "split_acc sep cur (c # cs) =
     (if c = sep then cur # split_acc sep [] cs else split_acc sep (cur @ [c]) cs)"

definition py_split :: "char \<Rightarrow> string \<Rightarrow> string list" where
  "py_split sep s = split_acc sep [] s"

fun re_sub_class :: "(char \<Rightarrow> bool) \<Rightarrow> string \<Rightarrow> string \<Rightarrow> string" where
  "re_sub_class cls repl [] = []"
| "re_sub_class cls repl (c # cs) =
     (if cls c then repl @ re_sub_class cls repl cs else c # re_sub_class cls repl cs)"

text \<open>The class \<^verbatim>\<open>[^0-9]\<close>.\<close>

definition not_0_9 :: "char \<Rightarrow> bool" where
  "not_0_9 c = (\<not> is_digit c)"

section \<open>price_conversion\<close>

text \<open>
  \<^verbatim>\<open>return re.sub("[^0-9]", "", price.split(".")[0])\<close>. A value without a
  \<^verbatim>\<open>split\<close> method (\<^verbatim>\<open>None\<close>, an integer) raises \<^verbatim>\<open>AttributeError\<close>.
\<close>

fun price_conversion :: "pyval \<Rightarrow> py_error + string" where
  "price_conversion (PyStr price) =
     (case py_split (CHR ''.'') price of
        [] \<Rightarrow> Inl IndexError
      | p # _ \<Rightarrow> Inr (re_sub_class not_0_9 [] p))"
| "price_conversion _ = Inl AttributeError"

section \<open>divide\<close>

text \<open>
  \<^verbatim>\<open>for i in range(0, len(lst), n): yield lst[i: i + n]\<close>. Every caller wraps the
  generator in \<^verbatim>\<open>list(...)\<close>; the model is that list, or the error raised while
  building it.
\<close>

definition divide :: "'a list \<Rightarrow> int \<Rightarrow> py_error + 'a list list" where
  "divide lst n =
     (case py_range 0 (int (length lst)) n of
        Inl e \<Rightarrow> Inl e
      | Inr idx \<Rightarrow> Inr (map (\<lambda>i. py_slice lst i (i + n)) idx))"

section \<open>Inventory rows and update entries\<close>

text \<open>
  A row of the spreadsheet is a dictionary; \<^verbatim>\<open>watch.get(key)\<close> is \<^verbatim>\<open>None\<close> for a
  missing key. The three keys the code reads are the column titles
  (code, quantity, price), in UTF-8.
\<close>

type_synonym pydict = "string \<rightharpoonup> pyval"

definition dict_get :: "pydict \<Rightarrow> string \<Rightarrow> pyval" where
  "dict_get d k = (case d k of None \<Rightarrow> PyNone | Some v \<Rightarrow> v)"

definition key_code :: string where
  "key_code = [CHR 0xD0, CHR 0x9A, CHR 0xD0, CHR 0xBE, CHR 0xD0, CHR 0xB4]"

definition key_quantity :: string where
  "key_quantity =
     [CHR 0xD0, CHR 0x9A, CHR 0xD0, CHR 0xBE, CHR 0xD0, CHR 0xBB, CHR 0xD0, CHR 0xB8,
      CHR 0xD1, CHR 0x87, CHR 0xD0, CHR 0xB5, CHR 0xD1, CHR 0x81, CHR 0xD1, CHR 0x82,
      CHR 0xD0, CHR 0xB2, CHR 0xD0, CHR 0xBE]"

definition key_price :: string where
  "key_price = [CHR 0xD0, CHR 0xA6, CHR 0xD0, CHR 0xB5, CHR 0xD0, CHR 0xBD, CHR 0xD0, CHR 0xB0]"


record stock_entry =
  offer_id :: string
  stock :: int

record price_entry =
  auto_action_enabled :: string
  currency_code :: string
  offer_id :: string
  old_price :: string
  price :: string

section \<open>create_stocks\<close>

text \<open>
  The branch on \<^verbatim>\<open>count\<close> (lines 219 to 225): the comparison is made on
  \<^verbatim>\<open>str\<close> of the cell, the conversion \<^verbatim>\<open>int\<close> on the cell itself.
\<close>

definition stock_of_count :: "pyval \<Rightarrow> py_error + int" where
  "stock_of_count q =
     (let count = py_str q in
      if count = ''>10'' then Inr 100
      else if count = ''1'' then Inr 0
      else py_int q)"

text \<open>
  The first loop. \<open>offer_ids\<close> is the caller's list object: \<^verbatim>\<open>offer_ids.remove\<close>
  deletes the first occurrence in place, so the list is threaded through the loop and
  returned with the result, also when an exception leaves the loop.
\<close>

fun stocks_loop ::
  "pydict list \<Rightarrow> stock_entry list \<Rightarrow> string list \<Rightarrow> (py_error + stock_entry list) \<times> string list" where
  "stocks_loop [] stocks offer_ids = (Inr stocks, offer_ids)"
| "stocks_loop (watch # rest) stocks offer_ids =
     (if py_str (dict_get watch key_code) \<in> set offer_ids then
        (case stock_of_count (dict_get watch key_quantity) of
           Inl e \<Rightarrow> (Inl e, offer_ids)
         | Inr n \<Rightarrow>
             stocks_loop rest
               (stocks @ [\<lparr>stock_entry.offer_id = py_str (dict_get watch key_code), stock = n\<rparr>])
               (remove1 (py_str (dict_get watch key_code)) offer_ids))
      else stocks_loop rest stocks offer_ids)"

text \<open>The second loop: one entry with stock 0 for every identifier left in the list.\<close>

fun fill_loop :: "string list \<Rightarrow> stock_entry list \<Rightarrow> stock_entry list" where
  "fill_loop [] stocks = stocks"
| "fill_loop (oid # rest) stocks =
     fill_loop rest (stocks @ [\<lparr>stock_entry.offer_id = oid, stock = 0\<rparr>])"

definition create_stocks ::
  "pydict list \<Rightarrow> string list \<Rightarrow> (py_error + stock_entry list) \<times> string list" where
  "create_stocks watch_remnants offer_ids =
     (case stocks_loop watch_remnants [] offer_ids of
        (Inl e, ids) \<Rightarrow> (Inl e, ids)
      | (Inr stocks, ids) \<Rightarrow> (Inr (fill_loop ids stocks), ids))"

section \<open>create_prices\<close>

text \<open>
  The loop only reads \<open>offer_ids\<close>; the list is threaded through in the same way as in
  \<open>stocks_loop\<close>, so that what the caller holds afterwards can be compared.
\<close>

fun prices_loop ::
  "pydict list \<Rightarrow> price_entry list \<Rightarrow> string list \<Rightarrow> (py_error + price_entry list) \<times> string list" where
  "prices_loop [] prices offer_ids = (Inr prices, offer_ids)"
| "prices_loop (watch # rest) prices offer_ids =
     (if py_str (dict_get watch key_code) \<in> set offer_ids then
        (case price_conversion (dict_get watch key_price) of
           Inl e \<Rightarrow> (Inl e, offer_ids)
         | Inr p \<Rightarrow>
             prices_loop rest
               (prices @
                [\<lparr>auto_action_enabled = ''UNKNOWN'', currency_code = ''RUB'',
                  offer_id = py_str (dict_get watch key_code), old_price = ''0'', price = p\<rparr>])
               offer_ids)
      else prices_loop rest prices offer_ids)"

definition create_prices ::
  "pydict list \<Rightarrow> string list \<Rightarrow> (py_error + price_entry list) \<times> string list" where
  "create_prices watch_remnants offer_ids = prices_loop watch_remnants [] offer_ids"

section \<open>main: reconcile, batch, dispatch\<close>

text \<open>
  Lines 404 to 410 of \<^verbatim>\<open>main\<close>, given the fetched inventory and offer identifiers. The
  result is the sequence of batches handed to \<^verbatim>\<open>update_stocks\<close> and to
  \<^verbatim>\<open>update_price\<close> when every network call succeeds; an exception of the core ends
  the run. \<^verbatim>\<open>create_prices\<close> receives the list object that \<^verbatim>\<open>create_stocks\<close> has
  already consumed.
\<close>

definition main_pipeline ::
  "pydict list \<Rightarrow> string list \<Rightarrow> py_error + (stock_entry list list \<times> price_entry list list)" where
  "main_pipeline watch_remnants offer_ids =
     (case create_stocks watch_remnants offer_ids of
        (Inl e, _) \<Rightarrow> Inl e
      | (Inr stocks, offer_ids') \<Rightarrow>
          (case divide stocks 100 of
             Inl e \<Rightarrow> Inl e
           | Inr stock_batches \<Rightarrow>
               (case create_prices watch_remnants offer_ids' of
                  (Inl e, _) \<Rightarrow> Inl e
                | (Inr prices, _) \<Rightarrow>
                    (case divide prices 900 of
                       Inl e \<Rightarrow> Inl e
                     | Inr price_batches \<Rightarrow> Inr (stock_batches, price_batches)))))"

section \<open>get_offer_ids\<close>

text \<open>
  \<^verbatim>\<open>get_product_list\<close> is the marketplace: a parameter \<open>fetch\<close> that maps the
  cursor and the state of the remote side to a page or an exception, and the next
  state. The \<^verbatim>\<open>while True\<close> loop need not end, so the loop has an optional result.
\<close>

record page =
  items :: "pydict list"
  total :: pyval
  last_id :: pyval

type_synonym 's fetcher = "pyval \<Rightarrow> 's \<Rightarrow> (py_error + page) \<times> 's"

partial_function (option) fetch_loop ::
  "'s fetcher \<Rightarrow> pyval \<Rightarrow> pydict list \<Rightarrow> 's \<Rightarrow> ((py_error + pydict list) \<times> 's) option" where
  "fetch_loop fetch lid product_list s =
     (case fetch lid s of
        (Inl e, s') \<Rightarrow> Some (Inl e, s')
      | (Inr some_prod, s') \<Rightarrow>
          (let product_list' = product_list @ items some_prod in
           if total some_prod = PyInt (int (length product_list')) then Some (Inr product_list', s')
           else fetch_loop fetch (last_id some_prod) product_list' s'))"


section \<open>Concrete inputs\<close>

text \<open>The price of the docstring of \<^verbatim>\<open>price_conversion\<close>, with its Cyrillic suffix.\<close>

definition price_example :: string where
  "price_example =
     ''5'990.00 '' @ [CHR 0xD1, CHR 0x80, CHR 0xD1, CHR 0x83, CHR 0xD0, CHR 0xB1] @ ''.''"

definition mk_watch :: "pyval \<Rightarrow> pyval \<Rightarrow> pyval \<Rightarrow> pydict" where
  "mk_watch c q p = [key_code \<mapsto> c, key_quantity \<mapsto> q, key_price \<mapsto> p]"

text \<open>The end-to-end scenario of the specification.\<close>

definition scenario_offers :: "string list" where
  "scenario_offers = [''A'', ''B'', ''C'']"

definition scenario_inventory :: "pydict list" where
  "scenario_inventory =
     [mk_watch (PyStr ''A'') (PyStr ''>10'') (PyStr ''5'990.00''),
      mk_watch (PyStr ''B'') (PyStr ''1'') (PyStr ''100.00'')]"





section \<open>Vocabulary of the statements\<close>

abbreviation code_of :: "pydict \<Rightarrow> string" where
  "code_of watch \<equiv> py_str (dict_get watch key_code)"

text \<open>A list without the later repetitions of its elements.\<close>

fun first_occurrences :: "'a list \<Rightarrow> 'a list" where
  "first_occurrences [] = []"
| "first_occurrences (x # xs) = x # first_occurrences (filter (\<lambda>y. y \<noteq> x) xs)"

text \<open>An entry that the first loop of \<open>create_stocks\<close> derives from an inventory row.\<close>

definition from_row :: "stock_entry \<Rightarrow> pydict \<Rightarrow> bool" where
  "from_row e watch \<longleftrightarrow>
     stock_entry.offer_id e = code_of watch \<and>
     stock_of_count (dict_get watch key_quantity) = Inr (stock e)"

text \<open>The entry that the second loop adds for an identifier left over.\<close>

definition zero_stock :: "string \<Rightarrow> stock_entry" where
  "zero_stock oid = \<lparr>stock_entry.offer_id = oid, stock = 0\<rparr>"

text \<open>A price entry derived from an inventory row, with its three constant fields.\<close>

definition priced_from :: "price_entry \<Rightarrow> pydict \<Rightarrow> bool" where
  "priced_from e watch \<longleftrightarrow>
     price_entry.offer_id e = code_of watch \<and>
     price_conversion (dict_get watch key_price) = Inr (price e) \<and>
     currency_code e = ''RUB'' \<and> auto_action_enabled e = ''UNKNOWN'' \<and> old_price e = ''0''"



section \<open>Facts about the built-ins\<close>

lemma split_acc_hd:
  "\<exists>rest. split_acc sep cur s = (cur @ takeWhile (\<lambda>c. c \<noteq> sep) s) # rest"
proof (induction s arbitrary: cur)
  case Nil
  show ?case by simp
next
  case (Cons c cs)
  show ?case
  proof (cases "c = sep")
    case True
    then show ?thesis by simp
  next
    case False
    from Cons [of "cur @ [c]"] False show ?thesis by simp
  qed
qed

lemma re_sub_class_empty: "re_sub_class cls [] s = filter (\<lambda>c. \<not> cls c) s"
  by (induction s) auto

lemma py_slice_chunk: "py_slice lst (int a) (int a + int m) = take m (drop a lst)"
  by (auto simp: py_slice_def slice_index_def Let_def min_def nat_add_distrib)

lemma concat_chunks: "concat (map (\<lambda>k. take m (drop (k * m) xs)) [0..<c]) = take (c * m) xs"
proof (induction c)
  case 0
  show ?case by simp
next
  case (Suc c)
  have "take (c * m) xs @ take m (drop (c * m) xs) = take (c * m + m) xs"
    by (simp add: take_add)
  with Suc show ?case by (simp add: add.commute)
qed

lemma range_len_pos: "0 < n \<Longrightarrow> range_len 0 (int len) n = (len + nat n - 1) div nat n"
proof (cases "len = 0")
  case True
  then show ?thesis by (simp add: range_len_def)
next
  case False
  assume n: "0 < n"
  obtain m where m: "n = int m" "0 < m"
    using n by (metis pos_int_cases)
  have "int len + int m - 1 = (int len - 1) + int m" by simp
  then have "(int len + int m - 1) div int m = (int len - 1) div int m + 1"
    using m(2) by (simp only: div_add_self2)
  moreover have "int ((len + m - 1) div m) = (int len + int m - 1) div int m"
    using False m(2) by (simp add: zdiv_int of_nat_diff)
  ultimately have "(int len - 1) div int m + 1 = int ((len + m - 1) div m)" by simp
  then show ?thesis using False m by (simp add: range_len_def)
qed

lemma divide_pos:
  "0 < n \<Longrightarrow>
   divide lst n =
     Inr (map (\<lambda>k. take (nat n) (drop (k * nat n) lst)) [0..<(length lst + nat n - 1) div nat n])"
proof -
  assume n: "0 < n"
  obtain m where m: "n = int m" "0 < m"
    using n by (metis pos_int_cases)
  have "\<And>k. py_slice lst (int k * int m) (int k * int m + int m) = take m (drop (k * m) lst)"
    using py_slice_chunk [of lst "k * m" m for k] by simp
  then show ?thesis
    using n m range_len_pos [of n "length lst"] by (simp add: divide_def py_range_def comp_def)
qed

lemma ceil_div_bounds:
  fixes len m :: nat
  assumes "0 < m"
  shows "len \<le> ((len + m - 1) div m) * m"
    and "0 < len \<Longrightarrow> ((len + m - 1) div m - 1) * m < len"
    and "len = 0 \<Longrightarrow> (len + m - 1) div m = 0"
proof -
  let ?c = "(len + m - 1) div m"
  have eq: "?c * m + (len + m - 1) mod m = len + m - 1" by simp
  have lt: "(len + m - 1) mod m < m" using assms by simp
  show "len \<le> ?c * m" using eq lt by linarith
  show "len = 0 \<Longrightarrow> ?c = 0" using assms by simp
  assume pos: "0 < len"
  have le: "?c * m \<le> len + m - 1" using eq by linarith
  have "(?c - 1) * m = ?c * m - m" by (simp add: diff_mult_distrib)
  then show "(?c - 1) * m < len" using le pos assms by linarith
qed

section \<open>Facts about the integer parser\<close>

lemmas int_eval = parse_int_def utf8_decode_def parse_ascii_def limited_digits_def
  int_max_str_digits_def strip_def is_space_def is_digit_def digit_val_def unicode_spaces_def
  unicode_zeros_def unicode_decimal_def digit_char_def

lemma digit_char_props:
  "k < 10 \<Longrightarrow>
   is_digit (digit_char k) \<and> digit_val (digit_char k) = k \<and> \<not> is_space (digit_char k) \<and>
   digit_char k \<noteq> CHR ''-'' \<and> digit_char k \<noteq> CHR ''+''"
proof -
  assume "k < 10"
  then have "k \<in> {0, 1, 2, 3, 4, 5, 6, 7, 8, 9}" by auto
  then show ?thesis
    by (auto simp: digit_char_def is_digit_def digit_val_def is_space_def)
qed









lemma set_strip: "set (strip s) \<subseteq> set s"
proof -
  have "set (strip s) = set (dropWhile is_space (rev (dropWhile is_space s)))" by (simp add: strip_def)
  also have "\<dots> \<subseteq> set (rev (dropWhile is_space s))" by (rule set_dropWhileD [THEN subsetI])
  also have "\<dots> \<subseteq> set s" by (auto dest: set_dropWhileD)
  finally show ?thesis .
qed





lemma parse_ascii_nonneg: "parse_ascii t = Some i \<Longrightarrow> CHR ''-'' \<notin> set t \<Longrightarrow> 0 \<le> i"
proof -
  assume p: "parse_ascii t = Some i" and m: "CHR ''-'' \<notin> set t"
  then obtain c cs where st: "strip t = c # cs" by (auto simp: parse_ascii_def split: list.splits)
  have "c \<noteq> CHR ''-''" using st set_strip [of t] m by auto
  with p st show ?thesis by (auto simp: parse_ascii_def split: if_splits)
qed

lemma unicode_decimal_Some: "unicode_decimal cp = Some d \<Longrightarrow> d < 10 \<and> 128 \<le> cp"
proof -
  assume "unicode_decimal cp = Some d"
  then obtain z where z: "find (\<lambda>z. z \<le> cp \<and> cp < z + 10) unicode_zeros = Some z" and d: "d = cp - z"
    by (auto simp: unicode_decimal_def)
  from z have "z \<in> set unicode_zeros" "z \<le> cp" "cp < z + 10"
    by (auto simp: find_Some_iff)
  moreover have "\<forall>z\<in>set unicode_zeros. 128 \<le> z" by (simp add: unicode_zeros_def)
  ultimately show ?thesis using d by auto
qed

lemma utf8_run_low:
  "utf8_run k acc lo s = Some cps \<Longrightarrow> k = 0 \<or> 128 \<le> lo \<Longrightarrow>
   (\<forall>c. Inl c \<in> set cps \<longrightarrow> c \<in> set s) \<and> (\<forall>cp. Inr cp \<in> set cps \<longrightarrow> 128 \<le> cp)"
proof (induction s arbitrary: k acc lo cps)
  case Nil
  then show ?case by (simp split: if_splits)
next
  case (Cons b bs)
  show ?case
  proof (cases "k = 0")
    case True
    note k0 = True
    let ?n = "of_char b :: nat"
    consider (a) "?n < 0x80" | (b) "0xC2 \<le> ?n \<and> ?n < 0xE0" | (c) "0xE0 \<le> ?n \<and> ?n < 0xF0"
      | (d) "0xF0 \<le> ?n \<and> ?n < 0xF5" | (e) "\<not> ?n < 0x80 \<and> \<not> (0xC2 \<le> ?n \<and> ?n < 0xE0) \<and>
          \<not> (0xE0 \<le> ?n \<and> ?n < 0xF0) \<and> \<not> (0xF0 \<le> ?n \<and> ?n < 0xF5)"
      by linarith
    then show ?thesis
    proof cases
      case a
      with Cons.prems(1) k0 obtain r where r: "utf8_run 0 0 0 bs = Some r" "cps = Inl b # r"
        by (auto simp: Let_def)
      from Cons.IH [OF r(1)] r(2) show ?thesis by auto
    next
      case b
      with Cons.prems(1) k0 have "utf8_run 1 (?n - 0xC0) 0x80 bs = Some cps"
        by (simp add: Let_def)
      from Cons.IH [OF this] show ?thesis by auto
    next
      case c
      with Cons.prems(1) k0 have "utf8_run 2 (?n - 0xE0) 0x800 bs = Some cps"
        by (simp add: Let_def)
      from Cons.IH [OF this] show ?thesis by auto
    next
      case d
      with Cons.prems(1) k0 have "utf8_run 3 (?n - 0xF0) 0x10000 bs = Some cps"
        by (simp add: Let_def)
      from Cons.IH [OF this] show ?thesis by auto
    next
      case e
      with Cons.prems(1) k0 show ?thesis by (simp add: Let_def)
    qed
  next
    case False
    with Cons.prems(2) have lo: "128 \<le> lo" by simp
    let ?n = "of_char b :: nat"
    let ?cp = "acc * 64 + (?n - 0x80)"
    from Cons.prems(1) False have cont: "0x80 \<le> ?n \<and> ?n < 0xC0"
      by (simp add: Let_def split: if_splits)
    show ?thesis
    proof (cases "k = 1")
      case True
      with Cons.prems(1) cont obtain r where
        r: "utf8_run 0 0 0 bs = Some r" "cps = Inr ?cp # r" "lo \<le> ?cp"
        by (auto simp: Let_def split: if_splits)
      from Cons.IH [OF r(1)] r(2,3) lo show ?thesis by auto
    next
      case k1: False
      with Cons.prems(1) False cont have "utf8_run (k - 1) ?cp lo bs = Some cps"
        by (simp add: Let_def)
      from Cons.IH [OF this] lo show ?thesis by auto
    qed
  qed
qed

lemma to_ascii_minus: "CHR ''-'' \<in> set (to_ascii cps) \<Longrightarrow> Inl (CHR ''-'') \<in> set cps"
proof (induction cps rule: to_ascii.induct)
  case 1
  then show ?case by simp
next
  case (2 c cps)
  then show ?case by (auto split: if_splits)
next
  case (3 cp cps)
  show ?case
  proof (cases "cp \<in> set unicode_spaces")
    case True
    with 3 show ?thesis by auto
  next
    case False
    show ?thesis
    proof (cases "unicode_decimal cp")
      case None
      with False 3 show ?thesis by simp
    next
      case (Some d)
      from unicode_decimal_Some [OF Some] digit_char_props [of d]
      have "digit_char d \<noteq> CHR ''-''" by simp
      with False Some 3 show ?thesis by auto
    qed
  qed
qed

lemma parse_int_nonneg: "parse_int q = Some i \<Longrightarrow> CHR ''-'' \<notin> set q \<Longrightarrow> 0 \<le> i"
proof -
  assume p: "parse_int q = Some i" and m: "CHR ''-'' \<notin> set q"
  from p obtain cps where d: "utf8_run 0 0 0 q = Some cps" and a: "parse_ascii (to_ascii cps) = Some i"
    by (auto simp: parse_int_def utf8_decode_def split: option.splits)
  from utf8_run_low [OF d] m have "Inl (CHR ''-'') \<notin> set cps" by auto
  then have "CHR ''-'' \<notin> set (to_ascii cps)" using to_ascii_minus by blast
  from parse_ascii_nonneg [OF a this] show ?thesis .
qed




lemma stock_of_count_nonneg:
  "stock_of_count (PyStr q) = Inr n \<Longrightarrow> CHR ''-'' \<notin> set q \<Longrightarrow> 0 \<le> n"
  by (auto simp: stock_of_count_def Let_def split: if_splits option.splits dest: parse_int_nonneg)




section \<open>Facts about the reconciliation loops\<close>

lemma price_conversion_filter:
  "price_conversion (PyStr s) = Inr (filter is_digit (takeWhile (\<lambda>c. c \<noteq> CHR ''.'') s))"
proof -
  obtain rest where "py_split (CHR ''.'') s = takeWhile (\<lambda>c. c \<noteq> CHR ''.'') s # rest"
    unfolding py_split_def using split_acc_hd [of "CHR ''.''" "[]" s] by auto
  then show ?thesis
    by (simp add: re_sub_class_empty not_0_9_def)
qed

lemma fill_loop_append: "fill_loop ids stocks = stocks @ map zero_stock ids"
  by (induction ids arbitrary: stocks) (auto simp: zero_stock_def)

lemma prices_loop_frame: "snd (prices_loop I prices K) = K"
  by (induction I arbitrary: prices) (auto split: sum.splits)

lemma prices_loop_no_match:
  "\<forall>w\<in>set I. code_of w \<notin> set K \<Longrightarrow> prices_loop I prices K = (Inr prices, K)"
  by (induction I arbitrary: prices) auto

lemma prices_loop_entries:
  "prices_loop I acc K = (Inr prices, K') \<Longrightarrow>
   \<exists>ps. prices = acc @ ps \<and> list_all2 priced_from ps (filter (\<lambda>w. code_of w \<in> set K) I)"
proof (induction I arbitrary: acc)
  case Nil
  then show ?case by simp
next
  case (Cons w I)
  show ?case
  proof (cases "code_of w \<in> set K")
    case False
    with Cons show ?thesis by simp
  next
    case True
    with Cons.prems obtain p where p: "price_conversion (dict_get w key_price) = Inr p"
      by (auto split: sum.splits)
    let ?e = "\<lparr>auto_action_enabled = ''UNKNOWN'', currency_code = ''RUB'',
                  offer_id = code_of w, old_price = ''0'', price = p\<rparr>"
    from Cons.prems True p have "prices_loop I (acc @ [?e]) K = (Inr prices, K')" by simp
    from Cons.IH [OF this] obtain ps where
      ps: "prices = (acc @ [?e]) @ ps" "list_all2 priced_from ps (filter (\<lambda>w. code_of w \<in> set K) I)"
      by blast
    have "priced_from ?e w" using p by (simp add: priced_from_def)
    with ps True have "prices = acc @ (?e # ps) \<and>
       list_all2 priced_from (?e # ps) (filter (\<lambda>w. code_of w \<in> set K) (w # I))" by simp
    then show ?thesis by blast
  qed
qed

lemma prices_loop_total:
  "\<forall>w\<in>set I. code_of w \<in> set K \<longrightarrow> (\<exists>s. dict_get w key_price = PyStr s) \<Longrightarrow>
   \<exists>prices. prices_loop I acc K = (Inr prices, K)"
proof (induction I arbitrary: acc)
  case Nil
  then show ?case by simp
next
  case (Cons w I)
  show ?case
  proof (cases "code_of w \<in> set K")
    case False
    with Cons show ?thesis by simp
  next
    case True
    with Cons.prems obtain s where s: "dict_get w key_price = PyStr s" by auto
    obtain p where "price_conversion (PyStr s) = Inr p"
      using price_conversion_filter [of s] by blast
    with s True Cons show ?thesis by simp
  qed
qed

lemma stocks_loop_entries:
  "stocks_loop I acc K = (Inr stocks, K') \<Longrightarrow>
   \<exists>ms ws. stocks = acc @ ms \<and> subseq ws I \<and> list_all2 from_row ms ws \<and>
           (\<forall>w\<in>set ws. code_of w \<in> set K) \<and>
           length ms + length K' = length K \<and> set K' \<subseteq> set K"
proof (induction I arbitrary: acc K)
  case Nil
  then show ?case by simp
next
  case (Cons w I)
  show ?case
  proof (cases "code_of w \<in> set K")
    case False
    with Cons.prems have "stocks_loop I acc K = (Inr stocks, K')" by simp
    from Cons.IH [OF this] obtain ms ws where
      h: "stocks = acc @ ms" "subseq ws I" "list_all2 from_row ms ws"
      "\<forall>w\<in>set ws. code_of w \<in> set K"
      "length ms + length K' = length K" "set K' \<subseteq> set K" by blast
    have "subseq ws (w # I)" using h(2) by (intro list_emb_Cons)
    with h have "stocks = acc @ ms \<and> subseq ws (w # I) \<and> list_all2 from_row ms ws \<and>
           (\<forall>w\<in>set ws. code_of w \<in> set K) \<and>
           length ms + length K' = length K \<and> set K' \<subseteq> set K" by simp
    then show ?thesis by blast
  next
    case True
    with Cons.prems obtain n where n: "stock_of_count (dict_get w key_quantity) = Inr n"
      by (auto split: sum.splits)
    let ?e = "\<lparr>stock_entry.offer_id = code_of w, stock = n\<rparr>"
    let ?K = "remove1 (code_of w) K"
    from Cons.prems True n
    have "stocks_loop I (acc @ [?e]) ?K = (Inr stocks, K')" by simp
    from Cons.IH [OF this] obtain ms ws where
      h: "stocks = (acc @ [?e]) @ ms" "subseq ws I" "list_all2 from_row ms ws"
      "\<forall>w\<in>set ws. code_of w \<in> set ?K"
      "length ms + length K' = length ?K" "set K' \<subseteq> set ?K"
      by blast
    have fr: "from_row ?e w" using n by (simp add: from_row_def)
    have len: "length ?K = length K - 1" "0 < length K"
      using True by (auto simp: length_remove1 length_pos_if_in_set)
    have sub: "set ?K \<subseteq> set K" by (rule set_remove1_subset)
    have "stocks = acc @ (?e # ms)" using h(1) by simp
    moreover have "subseq (w # ws) (w # I)" using h(2) by simp
    moreover have "list_all2 from_row (?e # ms) (w # ws)" using h(3) fr by simp
    moreover have "\<forall>v\<in>set (w # ws). code_of v \<in> set K" using h(4) sub True by auto
    moreover have "length (?e # ms) + length K' = length K" using h(5) len by simp
    moreover have "set K' \<subseteq> set K" using h(6) sub by auto
    ultimately show ?thesis by blast
  qed
qed

lemma stocks_loop_distinct:
  "distinct K \<Longrightarrow> stocks_loop I acc K = (Inr stocks, K') \<Longrightarrow>
   \<exists>ms ws. stocks = acc @ ms \<and> subseq ws I \<and> list_all2 from_row ms ws \<and>
           distinct (map code_of ws) \<and> set (map code_of ws) = set K \<inter> code_of ` set I \<and>
           K' = filter (\<lambda>oid. oid \<notin> code_of ` set I) K"
proof (induction I arbitrary: acc K)
  case Nil
  then show ?case by simp
next
  case (Cons w I)
  show ?case
  proof (cases "code_of w \<in> set K")
    case False
    with Cons.prems have "stocks_loop I acc K = (Inr stocks, K')" by simp
    from Cons.IH [OF Cons.prems(1) this] obtain ms ws where
      h: "stocks = acc @ ms" "subseq ws I" "list_all2 from_row ms ws"
      "distinct (map code_of ws)" "set (map code_of ws) = set K \<inter> code_of ` set I"
      "K' = filter (\<lambda>oid. oid \<notin> code_of ` set I) K" by blast
    have "filter (\<lambda>oid. oid \<notin> code_of ` set I) K = filter (\<lambda>oid. oid \<notin> code_of ` set (w # I)) K"
      using False by (intro filter_cong) auto
    moreover have "set K \<inter> code_of ` set I = set K \<inter> code_of ` set (w # I)"
      using False by auto
    moreover have "subseq ws (w # I)" using h(2) by (intro list_emb_Cons)
    ultimately have "stocks = acc @ ms \<and> subseq ws (w # I) \<and> list_all2 from_row ms ws \<and>
           distinct (map code_of ws) \<and> set (map code_of ws) = set K \<inter> code_of ` set (w # I) \<and>
           K' = filter (\<lambda>oid. oid \<notin> code_of ` set (w # I)) K"
      using h by simp
    then show ?thesis by blast
  next
    case True
    let ?c = "code_of w"
    from True Cons.prems obtain n where n: "stock_of_count (dict_get w key_quantity) = Inr n"
      by (auto split: sum.splits)
    let ?e = "\<lparr>stock_entry.offer_id = ?c, stock = n\<rparr>"
    from Cons.prems True n
    have run: "stocks_loop I (acc @ [?e]) (remove1 ?c K) = (Inr stocks, K')" by simp
    have d: "distinct (remove1 ?c K)" using Cons.prems(1) by simp
    have rm: "remove1 ?c K = filter (\<lambda>oid. oid \<noteq> ?c) K"
    proof -
      have "remove1 ?c K = filter ((\<noteq>) ?c) K"
        using Cons.prems(1) by (simp add: distinct_remove1_removeAll removeAll_filter_not_eq)
      also have "\<dots> = filter (\<lambda>oid. oid \<noteq> ?c) K" by (intro filter_cong) auto
      finally show ?thesis .
    qed
    from Cons.IH [OF d run] obtain ms ws where
      h: "stocks = (acc @ [?e]) @ ms" "subseq ws I" "list_all2 from_row ms ws"
      "distinct (map code_of ws)" "set (map code_of ws) = set (remove1 ?c K) \<inter> code_of ` set I"
      "K' = filter (\<lambda>oid. oid \<notin> code_of ` set I) (remove1 ?c K)" by blast
    have fr: "from_row ?e w" using n by (simp add: from_row_def)
    have notin: "?c \<notin> set (map code_of ws)" using h(5) Cons.prems(1) by simp
    have seteq: "set (map code_of (w # ws)) = set K \<inter> code_of ` set (w # I)"
      using h(5) True Cons.prems(1) by auto
    have K': "K' = filter (\<lambda>oid. oid \<notin> code_of ` set (w # I)) K"
      unfolding h(6) rm by (auto intro: filter_cong)
    have "stocks = acc @ (?e # ms) \<and> subseq (w # ws) (w # I) \<and>
        list_all2 from_row (?e # ms) (w # ws) \<and>
        distinct (map code_of (w # ws)) \<and>
        set (map code_of (w # ws)) = set K \<inter> code_of ` set (w # I) \<and>
        K' = filter (\<lambda>oid. oid \<notin> code_of ` set (w # I)) K"
      using h(1-4) fr notin seteq K' by simp
    then show ?thesis by blast
  qed
qed

lemma stocks_loop_total:
  "\<forall>w\<in>set I. code_of w \<in> set K \<longrightarrow> (\<exists>n. stock_of_count (dict_get w key_quantity) = Inr n) \<Longrightarrow>
   \<exists>stocks K'. stocks_loop I acc K = (Inr stocks, K')"
proof (induction I arbitrary: acc K)
  case Nil
  then show ?case by simp
next
  case (Cons w I)
  show ?case
  proof (cases "code_of w \<in> set K")
    case False
    with Cons show ?thesis by simp
  next
    case True
    with Cons.prems obtain n where n: "stock_of_count (dict_get w key_quantity) = Inr n" by auto
    have "\<forall>v\<in>set I. code_of v \<in> set (remove1 (code_of w) K) \<longrightarrow>
            (\<exists>n. stock_of_count (dict_get v key_quantity) = Inr n)"
      using Cons.prems by (auto dest: notin_set_remove1)
    from Cons.IH [OF this] True n show ?thesis by simp
  qed
qed


lemma list_all2_lhs_set: "list_all2 R xs ys \<Longrightarrow> x \<in> set xs \<Longrightarrow> \<exists>y\<in>set ys. R x y"
  by (induction rule: list_all2_induct) auto

lemma subseq_set: "subseq xs ys \<Longrightarrow> set xs \<subseteq> set ys"
  by (induction rule: list_emb.induct) auto

lemma from_row_ids: "list_all2 from_row ms ws \<Longrightarrow> map stock_entry.offer_id ms = map code_of ws"
  by (induction rule: list_all2_induct) (auto simp: from_row_def)

lemma zero_stock_ids: "map stock_entry.offer_id (map zero_stock ids) = ids"
  by (induction ids) (auto simp: zero_stock_def)

lemma create_stocks_Inr:
  "create_stocks I K = (Inr stocks, K') \<longleftrightarrow>
     (\<exists>ms. stocks_loop I [] K = (Inr ms, K') \<and> stocks = ms @ map zero_stock K')"
  by (auto simp: create_stocks_def fill_loop_append split: prod.splits sum.splits)

lemma dict_get_mk_watch [simp]:
  "dict_get (mk_watch c q p) key_code = c"
  "dict_get (mk_watch c q p) key_quantity = q"
  "dict_get (mk_watch c q p) key_price = p"
  by (simp_all add: dict_get_def mk_watch_def key_code_def key_quantity_def key_price_def)

lemma scenario_stocks:
  "create_stocks scenario_inventory scenario_offers =
     (Inr [\<lparr>stock_entry.offer_id = ''A'', stock = 100\<rparr>, \<lparr>stock_entry.offer_id = ''B'', stock = 0\<rparr>,
           \<lparr>stock_entry.offer_id = ''C'', stock = 0\<rparr>], [''C''])"
  by (simp add: create_stocks_def scenario_inventory_def scenario_offers_def stock_of_count_def)

lemma stocks_loop_ids:
  "distinct K \<Longrightarrow> stocks_loop I acc K = (Inr stocks, K') \<Longrightarrow>
   map stock_entry.offer_id stocks =
     map stock_entry.offer_id acc @
     first_occurrences (filter (\<lambda>c. c \<in> set K) (map code_of I))"
proof (induction I arbitrary: acc K)
  case Nil
  then show ?case by auto
next
  case (Cons w I)
  let ?c = "code_of w"
  show ?case
  proof (cases "?c \<in> set K")
    case False
    with Cons.prems have "stocks_loop I acc K = (Inr stocks, K')" by simp
    from Cons.IH [OF Cons.prems(1) this] False show ?thesis by simp
  next
    case True
    with Cons.prems obtain n where n: "stock_of_count (dict_get w key_quantity) = Inr n"
      by (auto split: sum.splits)
    let ?e = "\<lparr>stock_entry.offer_id = ?c, stock = n\<rparr>"
    from Cons.prems True n
    have run: "stocks_loop I (acc @ [?e]) (remove1 ?c K) = (Inr stocks, K')" by simp
    have d: "distinct (remove1 ?c K)" using Cons.prems(1) by simp
    have "filter (\<lambda>y. y \<noteq> ?c) (filter (\<lambda>c. c \<in> set K) (map code_of I)) =
          filter (\<lambda>c. c \<in> set (remove1 ?c K)) (map code_of I)"
      using Cons.prems(1) by (auto intro: filter_cong)
    with Cons.IH [OF d run] True show ?thesis
      by simp
  qed
qed

lemma create_stocks_entries:
  "create_stocks I K = (Inr stocks, K') \<Longrightarrow>
   \<exists>ms ws. stocks = ms @ map zero_stock K' \<and> subseq ws I \<and> list_all2 from_row ms ws \<and>
           (\<forall>w\<in>set ws. code_of w \<in> set K)"
proof -
  assume "create_stocks I K = (Inr stocks, K')"
  then obtain ms where loop: "stocks_loop I [] K = (Inr ms, K')" and s: "stocks = ms @ map zero_stock K'"
    unfolding create_stocks_Inr by blast
  from stocks_loop_entries [OF loop] s show ?thesis by auto
qed








section \<open>Facts about the fetch loop\<close>


lemma fetch_loop_raise:
  "fetch lid s = (Inl e, s1) \<Longrightarrow> fetch_loop fetch lid pl s = Some (Inl e, s1)"
  by (subst fetch_loop.simps) simp



section \<open>The scenario, evaluated\<close>

lemma scenario_main:
  "main_pipeline scenario_inventory scenario_offers =
     Inr ([[\<lparr>stock_entry.offer_id = ''A'', stock = 100\<rparr>, \<lparr>stock_entry.offer_id = ''B'', stock = 0\<rparr>,
           \<lparr>stock_entry.offer_id = ''C'', stock = 0\<rparr>]], [])"
proof -
  have p: "create_prices scenario_inventory [''C''] = (Inr [], [''C''])"
    by (simp add: create_prices_def scenario_inventory_def)
  show ?thesis
    by (simp add: main_pipeline_def scenario_stocks p
        divide_def py_range_def range_len_def py_slice_def slice_index_def)
qed

lemma scenario_prices:
  "create_prices scenario_inventory scenario_offers =
     (Inr [\<lparr>auto_action_enabled = ''UNKNOWN'', currency_code = ''RUB'', offer_id = ''A'',
            old_price = ''0'', price = ''5990''\<rparr>,
           \<lparr>auto_action_enabled = ''UNKNOWN'', currency_code = ''RUB'', offer_id = ''B'',
            old_price = ''0'', price = ''100''\<rparr>], scenario_offers)"
  by (simp add: create_prices_def scenario_inventory_def scenario_offers_def py_split_def
      not_0_9_def is_digit_def)

section \<open>The price normaliser\<close>

text \<open>
  Claim C4. For every input string, \<open>price_conversion\<close> returns exactly the ASCII
  decimal digits of the part of the input before the first dot, in their order, with
  every other character removed (the whole input when it has no dot); for the
  docstring's price \<^verbatim>\<open>5'990.00\<close> followed by the currency it returns \<^verbatim>\<open>5990\<close>.
\<close>

theorem price_conversion_digits_before_dot:
  "price_conversion (PyStr s) = Inr (filter is_digit (takeWhile (\<lambda>c. c \<noteq> CHR ''.'') s)) \<and>
   price_conversion (PyStr price_example) = Inr ''5990''"
proof
  show "price_conversion (PyStr s) = Inr (filter is_digit (takeWhile (\<lambda>c. c \<noteq> CHR ''.'') s))"
    by (rule price_conversion_filter)
  show "price_conversion (PyStr price_example) = Inr ''5990''"
    by (simp add: price_example_def py_split_def not_0_9_def is_digit_def)
qed

section \<open>The batcher\<close>

text \<open>
  Claim C5. For every list and every positive \<open>n\<close>, \<open>divide\<close> returns chunks whose
  concatenation, in order, is the list itself; every chunk but the last has length
  exactly \<open>n\<close>, the last chunk has between 1 and \<open>n\<close> elements, and the empty list
  gives no chunk.
\<close>

theorem divide_partitions:
  "0 < n \<Longrightarrow>
     (\<exists>chunks. divide lst n = Inr chunks \<and> concat chunks = lst \<and>
        (\<forall>k. Suc k < length chunks \<longrightarrow> length (chunks ! k) = nat n) \<and>
        (chunks \<noteq> [] \<longrightarrow> 1 \<le> length (last chunks) \<and> length (last chunks) \<le> nat n)) \<and>
     divide ([] :: 'a list) n = Inr []"
proof -
  assume n: "0 < n"
  define m where "m = nat n"
  have m: "0 < m" using n by (simp add: m_def)
  define c where "c = (length lst + m - 1) div m"
  define f where "f = (\<lambda>k. take m (drop (k * m) lst))"
  define chunks where "chunks = map f [0..<c]"
  have d: "divide lst n = Inr chunks"
    using divide_pos [OF n, of lst] by (simp add: chunks_def f_def c_def m_def)
  have cat: "concat chunks = lst"
    using concat_chunks [of m lst c] ceil_div_bounds(1) [OF m, of "length lst"]
    by (simp add: chunks_def f_def c_def)
  have full: "length (chunks ! k) = m" if "Suc k < length chunks" for k
  proof -
    have kc: "Suc k < c" using that by (simp add: chunks_def)
    then have pos: "0 < length lst"
      using ceil_div_bounds(3) [OF m, of "length lst"] by (auto simp: c_def)
    have "Suc k * m \<le> (c - 1) * m" using kc by (intro mult_le_mono1) simp
    also have "\<dots> < length lst" using ceil_div_bounds(2) [OF m pos] by (simp add: c_def)
    finally have "k * m + m < length lst" by simp
    then show ?thesis using kc by (simp add: chunks_def f_def)
  qed
  have lst_chunk: "1 \<le> length (last chunks) \<and> length (last chunks) \<le> m" if "chunks \<noteq> []"
  proof -
    have c0: "0 < c" using that by (simp add: chunks_def)
    then have pos: "0 < length lst"
      using ceil_div_bounds(3) [OF m, of "length lst"] by (auto simp: c_def)
    have "last chunks = f (c - 1)"
      using c0 by (simp add: chunks_def last_map last_upt)
    moreover have "(c - 1) * m < length lst"
      using ceil_div_bounds(2) [OF m pos] by (simp add: c_def)
    ultimately show ?thesis using m by (simp add: f_def)
  qed
  have "divide ([] :: 'a list) n = Inr []"
    using divide_pos [OF n, of "[] :: 'a list"] n by simp
  with d cat full lst_chunk show ?thesis unfolding m_def by blast
qed

theorem divide_partitions_witness:
  "(0::int) < 2 \<and> divide [1, 2, 3, 4, 5 :: int] 2 = Inr [[1, 2], [3, 4], [5]] \<and>
   divide ([] :: int list) 2 = Inr []"
  using divide_partitions [of 2 "[1, 2, 3, 4, 5 :: int]"]
  by (simp add: divide_def py_range_def range_len_def py_slice_def slice_index_def upt_rec)

text \<open>
  Claim C6, as stated: a non-empty list and a size \<open>n \<le> 0\<close> make \<open>divide\<close> fail. For a
  negative size the range is empty and the generator ends at once, without an error.
\<close>

theorem divide_negative_size_counterexample:
  "[1 :: int] \<noteq> [] \<and> (- 1 :: int) \<le> 0 \<and> divide [1 :: int] (- 1) = Inr []"
  by (simp add: divide_def py_range_def range_len_def)

text \<open>
  Claim C6, amended. For every list, \<open>divide\<close> with size 0 fails with the
  \<^verbatim>\<open>ValueError\<close> of \<^verbatim>\<open>range\<close>; with a negative size it yields no chunk and no error.
\<close>

theorem divide_zero_fails_negative_empty:
  "divide lst 0 = Inl ValueError \<and> (n < 0 \<longrightarrow> divide lst n = Inr [])"
  by (simp add: divide_def py_range_def range_len_def)

theorem divide_zero_fails_negative_empty_witness:
  "divide [1 :: int, 2] 0 = Inl ValueError \<and> (- 3 :: int) < 0 \<and>
   divide [1 :: int, 2] (- 3) = Inr []"
  using divide_zero_fails_negative_empty [of "[1 :: int, 2]" "- 3"] by simp

section \<open>The stock reconciler\<close>

text \<open>
  Claim C2. For a duplicate-free list \<open>K\<close> of known offers, whenever \<open>create_stocks\<close>
  returns, it returns exactly \<open>|K|\<close> entries, one per identifier of \<open>K\<close>, without
  duplicates or omissions. Their identifiers are, in this order: the codes of the
  inventory that are known, each at its first occurrence, in inventory order; then the
  identifiers of \<open>K\<close> that no inventory row carries, in their order in \<open>K\<close>. The first
  part consists of entries derived from inventory rows, the second of entries with
  stock 0. \<open>create_stocks\<close> returns whenever the quantity of every row with a known
  code is accepted by the quantity rule.
\<close>

theorem create_stocks_covers_known_offers:
  "distinct K \<Longrightarrow>
     (\<forall>stocks K'. create_stocks I K = (Inr stocks, K') \<longrightarrow>
        length stocks = length K \<and>
        distinct (map stock_entry.offer_id stocks) \<and>
        set (map stock_entry.offer_id stocks) = set K \<and>
        map stock_entry.offer_id stocks =
          first_occurrences (filter (\<lambda>c. c \<in> set K) (map code_of I)) @
          filter (\<lambda>oid. oid \<notin> code_of ` set I) K \<and>
        (\<exists>ms ws. stocks = ms @ map zero_stock K' \<and> list_all2 from_row ms ws \<and> subseq ws I \<and>
           set (map code_of ws) = set K \<inter> code_of ` set I \<and>
           K' = filter (\<lambda>oid. oid \<notin> code_of ` set I) K)) \<and>
     ((\<forall>w\<in>set I. code_of w \<in> set K \<longrightarrow>
          (\<exists>n. stock_of_count (dict_get w key_quantity) = Inr n)) \<longrightarrow>
      (\<exists>stocks K'. create_stocks I K = (Inr stocks, K')))"
proof (intro conjI allI impI)
  assume "\<forall>w\<in>set I. code_of w \<in> set K \<longrightarrow> (\<exists>n. stock_of_count (dict_get w key_quantity) = Inr n)"
  from stocks_loop_total [OF this, of "[]"]
  show "\<exists>stocks K'. create_stocks I K = (Inr stocks, K')"
    unfolding create_stocks_Inr by blast
next
  fix stocks K'
  assume d: "distinct K" and run: "create_stocks I K = (Inr stocks, K')"
  from run obtain ms0 where loop: "stocks_loop I [] K = (Inr ms0, K')"
    and stocks: "stocks = ms0 @ map zero_stock K'"
    unfolding create_stocks_Inr by blast
  from stocks_loop_distinct [OF d loop] obtain ws where
    ws: "subseq ws I" "list_all2 from_row ms0 ws" "distinct (map code_of ws)"
      "set (map code_of ws) = set K \<inter> code_of ` set I"
      "K' = filter (\<lambda>oid. oid \<notin> code_of ` set I) K"
    by auto
  from stocks_loop_entries [OF loop] have len: "length ms0 + length K' = length K" by auto
  have ids: "map stock_entry.offer_id stocks = map code_of ws @ K'"
    using stocks from_row_ids [OF ws(2)] zero_stock_ids by simp
  show "length stocks = length K" using stocks len by simp
  have dK': "distinct K'" using d ws(5) by simp
  have disj: "set (map code_of ws) \<inter> set K' = {}" using ws(4,5) by auto
  show "distinct (map stock_entry.offer_id stocks)"
    unfolding ids using ws(3) dK' disj by simp
  show "set (map stock_entry.offer_id stocks) = set K"
    unfolding ids using ws(4,5) by auto
  show "map stock_entry.offer_id stocks =
          first_occurrences (filter (\<lambda>c. c \<in> set K) (map code_of I)) @
          filter (\<lambda>oid. oid \<notin> code_of ` set I) K"
    using stocks_loop_ids [OF d loop] stocks ws(5) zero_stock_ids by simp
  show "\<exists>ms ws. stocks = ms @ map zero_stock K' \<and> list_all2 from_row ms ws \<and> subseq ws I \<and>
           set (map code_of ws) = set K \<inter> code_of ` set I \<and>
           K' = filter (\<lambda>oid. oid \<notin> code_of ` set I) K"
    using stocks ws by blast
qed

theorem create_stocks_covers_known_offers_witness:
  "distinct scenario_offers \<and>
   list_all (\<lambda>w. \<exists>n. stock_of_count (dict_get w key_quantity) = Inr n) scenario_inventory \<and>
   (\<exists>stocks K'. create_stocks scenario_inventory scenario_offers = (Inr stocks, K') \<and>
      length stocks = length scenario_offers \<and>
      map stock_entry.offer_id stocks = [''A'', ''B'', ''C''] \<and>
      set (map stock_entry.offer_id stocks) = set scenario_offers)"
proof -
  let ?stocks = "[\<lparr>stock_entry.offer_id = ''A'', stock = 100\<rparr>,
                  \<lparr>stock_entry.offer_id = ''B'', stock = 0\<rparr>,
                  \<lparr>stock_entry.offer_id = ''C'', stock = 0\<rparr>]"
  have d: "distinct scenario_offers" by (simp add: scenario_offers_def)
  have q: "list_all (\<lambda>w. \<exists>n. stock_of_count (dict_get w key_quantity) = Inr n) scenario_inventory"
    by (simp add: scenario_inventory_def stock_of_count_def)
  have run: "create_stocks scenario_inventory scenario_offers = (Inr ?stocks, [''C''])"
    by (rule scenario_stocks)
  have p: "length ?stocks = length scenario_offers \<and>
        set (map stock_entry.offer_id ?stocks) = set scenario_offers"
    using create_stocks_covers_known_offers [OF d, of scenario_inventory] run by blast
  have ids: "map stock_entry.offer_id ?stocks = [''A'', ''B'', ''C'']" by simp
  have ex: "\<exists>stocks K'. create_stocks scenario_inventory scenario_offers = (Inr stocks, K') \<and>
      length stocks = length scenario_offers \<and>
      map stock_entry.offer_id stocks = [''A'', ''B'', ''C''] \<and>
      set (map stock_entry.offer_id stocks) = set scenario_offers"
    by (rule exI [of _ ?stocks], rule exI [of _ "[''C'']"]) (use run p ids in blast)
  show ?thesis by (rule conjI [OF d conjI [OF q ex]])
qed






text \<open>
  Claim C9, as stated: every entry that \<open>create_stocks\<close> produces has a non-negative
  stock, whatever the quantity strings. The quantity \<^verbatim>\<open>-5\<close> is an integer string,
  parsed and used as it is.
\<close>

theorem negative_quantity_counterexample:
  "create_stocks [mk_watch (PyStr ''A'') (PyStr ''-5'') PyNone] [''A''] =
     (Inr [\<lparr>stock_entry.offer_id = ''A'', stock = - 5\<rparr>], []) \<and>
   stock \<lparr>stock_entry.offer_id = ''A'', stock = - 5\<rparr> < 0"
  by (simp add: create_stocks_def stock_of_count_def int_eval)

text \<open>
  Claim C9, amended. When the quantity of every row with a known code is a string
  without a minus sign (in particular \<^verbatim>\<open>>10\<close>, \<^verbatim>\<open>1\<close> or a string of decimal
  digits), every entry of every result of \<open>create_stocks\<close> has a non-negative stock.
\<close>

theorem stocks_nonnegative_without_minus:
  "\<forall>w\<in>set I. code_of w \<in> set K \<longrightarrow>
       (\<exists>q. dict_get w key_quantity = PyStr q \<and> CHR ''-'' \<notin> set q) \<Longrightarrow>
   \<forall>stocks K'. create_stocks I K = (Inr stocks, K') \<longrightarrow> (\<forall>e\<in>set stocks. 0 \<le> stock e)"
proof (intro allI impI ballI)
  fix stocks K' e
  assume h: "\<forall>w\<in>set I. code_of w \<in> set K \<longrightarrow>
       (\<exists>q. dict_get w key_quantity = PyStr q \<and> CHR ''-'' \<notin> set q)"
    and run: "create_stocks I K = (Inr stocks, K')" and e: "e \<in> set stocks"
  from create_stocks_entries [OF run] obtain ms ws where
    s: "stocks = ms @ map zero_stock K'" "subseq ws I" "list_all2 from_row ms ws"
       "\<forall>w\<in>set ws. code_of w \<in> set K" by blast
  from e s(1) consider "e \<in> set ms" | "e \<in> zero_stock ` set K'" by auto
  then show "0 \<le> stock e"
  proof cases
    case 1
    from list_all2_lhs_set [OF s(3) 1] obtain w where w: "w \<in> set ws" "from_row e w" by blast
    from w(1) s(2) have "w \<in> set I" using subseq_set by blast
    with h w(1) s(4) obtain q where q: "dict_get w key_quantity = PyStr q" "CHR ''-'' \<notin> set q"
      by blast
    from w(2) q(1) have "stock_of_count (PyStr q) = Inr (stock e)" by (simp add: from_row_def)
    from stock_of_count_nonneg [OF this q(2)] show ?thesis .
  next
    case 2
    then show ?thesis by (auto simp: zero_stock_def)
  qed
qed

theorem stocks_nonnegative_without_minus_witness:
  "\<exists>stocks K'. create_stocks scenario_inventory scenario_offers = (Inr stocks, K') \<and>
      list_all (\<lambda>e. 0 \<le> stock e) stocks"
proof -
  have h: "\<forall>w\<in>set scenario_inventory. code_of w \<in> set scenario_offers \<longrightarrow>
       (\<exists>q. dict_get w key_quantity = PyStr q \<and> CHR ''-'' \<notin> set q)"
    by (simp add: scenario_inventory_def scenario_offers_def)
  from stocks_nonnegative_without_minus [OF h] scenario_stocks show ?thesis
    unfolding list_all_iff by blast
qed

section \<open>The price reconciler\<close>

text \<open>
  Claim C7. \<open>create_prices\<close> emits an entry only for identifiers that occur both in
  the inventory (as \<^verbatim>\<open>str\<close> of the row's code) and in the known offers: its result
  is, row by row, the list of the inventory rows whose code is known; every entry has
  the row's code as \<open>offer_id\<close>, \<open>price_conversion\<close> of the row's price as \<open>price\<close>,
  currency \<^verbatim>\<open>RUB\<close>, \<^verbatim>\<open>UNKNOWN\<close> and old price \<^verbatim>\<open>0\<close>. It returns whenever the
  price of every row with a known code is a string. For the inventory with the single
  code \<^verbatim>\<open>A\<close>, price \<^verbatim>\<open>1000\<close>, and the known offer \<^verbatim>\<open>B\<close> the result is empty.
\<close>

theorem create_prices_only_matched:
  "(\<forall>prices K'. create_prices I K = (Inr prices, K') \<longrightarrow>
      list_all2 priced_from prices (filter (\<lambda>w. code_of w \<in> set K) I) \<and>
      (\<forall>e\<in>set prices. price_entry.offer_id e \<in> set K \<and> price_entry.offer_id e \<in> code_of ` set I \<and>
         currency_code e = ''RUB'' \<and> auto_action_enabled e = ''UNKNOWN'' \<and> old_price e = ''0'' \<and>
         (\<exists>w\<in>set I. price_conversion (dict_get w key_price) = Inr (price e)))) \<and>
   ((\<forall>w\<in>set I. code_of w \<in> set K \<longrightarrow> (\<exists>s. dict_get w key_price = PyStr s)) \<longrightarrow>
      (\<exists>prices. create_prices I K = (Inr prices, K))) \<and>
   create_prices [[key_code \<mapsto> PyStr ''A'', key_price \<mapsto> PyStr ''1000'']] [''B''] = (Inr [], [''B''])"
proof (intro conjI allI impI)
  fix prices K'
  assume run: "create_prices I K = (Inr prices, K')"
  from prices_loop_entries [of I "[]" K prices K'] run
  show l: "list_all2 priced_from prices (filter (\<lambda>w. code_of w \<in> set K) I)"
    by (auto simp: create_prices_def)
  show "\<forall>e\<in>set prices. price_entry.offer_id e \<in> set K \<and> price_entry.offer_id e \<in> code_of ` set I \<and>
         currency_code e = ''RUB'' \<and> auto_action_enabled e = ''UNKNOWN'' \<and> old_price e = ''0'' \<and>
         (\<exists>w\<in>set I. price_conversion (dict_get w key_price) = Inr (price e))"
  proof
    fix e assume "e \<in> set prices"
    from list_all2_lhs_set [OF l this] obtain w where
      "w \<in> set I" "code_of w \<in> set K" "priced_from e w" by auto
    then show "price_entry.offer_id e \<in> set K \<and> price_entry.offer_id e \<in> code_of ` set I \<and>
         currency_code e = ''RUB'' \<and> auto_action_enabled e = ''UNKNOWN'' \<and> old_price e = ''0'' \<and>
         (\<exists>w\<in>set I. price_conversion (dict_get w key_price) = Inr (price e))"
      unfolding priced_from_def by auto
  qed
next
  assume "\<forall>w\<in>set I. code_of w \<in> set K \<longrightarrow> (\<exists>s. dict_get w key_price = PyStr s)"
  from prices_loop_total [OF this, of "[]"] show "\<exists>prices. create_prices I K = (Inr prices, K)"
    by (simp add: create_prices_def)
next
  show "create_prices [[key_code \<mapsto> PyStr ''A'', key_price \<mapsto> PyStr ''1000'']] [''B''] = (Inr [], [''B''])"
    by (simp add: create_prices_def dict_get_def key_code_def key_price_def)
qed

theorem create_prices_only_matched_witness:
  "\<exists>prices. create_prices scenario_inventory scenario_offers = (Inr prices, scenario_offers) \<and>
     map price_entry.offer_id prices = [''A'', ''B''] \<and> map price prices = [''5990'', ''100''] \<and>
     list_all (\<lambda>e. price_entry.offer_id e \<in> set scenario_offers \<and> currency_code e = ''RUB'') prices"
  using create_prices_only_matched [of scenario_inventory scenario_offers] scenario_prices
  by (simp add: scenario_offers_def)

text \<open>
  Claim C8. A call of \<open>create_prices\<close> leaves the list of known offers as it was,
  whether it returns or raises; \<open>create_stocks\<close> does not: in the scenario only
  \<^verbatim>\<open>C\<close> is left in the list.
\<close>

theorem create_prices_leaves_offers:
  "snd (create_prices I K) = K \<and> snd (create_stocks scenario_inventory scenario_offers) = [''C'']"
  by (simp add: create_prices_def prices_loop_frame scenario_stocks)

theorem create_prices_leaves_offers_witness:
  "snd (create_prices scenario_inventory scenario_offers) = scenario_offers"
  using create_prices_leaves_offers [of scenario_inventory scenario_offers] by simp

section \<open>The pipeline of main\<close>

text \<open>
  Claim C1. In \<open>main\<close>, for every inventory and every duplicate-free list of known
  offers, once \<open>create_stocks\<close> has returned and removed the matched identifiers from
  the list, \<open>create_prices\<close> on the same inventory and the list that is left returns
  the empty list; so \<open>main\<close> dispatches no price batch at all.
\<close>

theorem main_sends_no_price_update:
  "distinct K \<Longrightarrow>
     (\<forall>stocks K'. create_stocks I K = (Inr stocks, K') \<longrightarrow> create_prices I K' = (Inr [], K')) \<and>
     (\<forall>stock_batches price_batches.
        main_pipeline I K = Inr (stock_batches, price_batches) \<longrightarrow> price_batches = [])"
proof -
  assume d: "distinct K"
  have a: "create_prices I K' = (Inr [], K')" if run: "create_stocks I K = (Inr stocks, K')" for stocks K'
  proof -
    from run obtain ms where loop: "stocks_loop I [] K = (Inr ms, K')"
      unfolding create_stocks_Inr by blast
    from stocks_loop_distinct [OF d loop]
    have "K' = filter (\<lambda>oid. oid \<notin> code_of ` set I) K" by auto
    then have "\<forall>w\<in>set I. code_of w \<notin> set K'" by auto
    from prices_loop_no_match [OF this] show ?thesis by (simp add: create_prices_def)
  qed
  have b: "price_batches = []" if m: "main_pipeline I K = Inr (stock_batches, price_batches)"
    for stock_batches price_batches
  proof -
    from m obtain stocks K' where run: "create_stocks I K = (Inr stocks, K')"
      by (auto simp: main_pipeline_def split: prod.splits sum.splits)
    from a [OF run] m run show ?thesis
      by (auto simp: main_pipeline_def divide_def py_range_def range_len_def split: sum.splits)
  qed
  from a b show ?thesis by blast
qed

theorem main_sends_no_price_update_witness:
  "distinct scenario_offers \<and>
   create_prices scenario_inventory [''C''] = (Inr [], [''C'']) \<and>
   (\<exists>stock_batches. main_pipeline scenario_inventory scenario_offers = Inr (stock_batches, []))"
proof -
  have d: "distinct scenario_offers" by (simp add: scenario_offers_def)
  from main_sends_no_price_update [OF d, of scenario_inventory] scenario_stocks scenario_main d
  show ?thesis by auto
qed

section \<open>Fetching the offer identifiers\<close>



end
